theory Spec2Isabelle
  imports Complex_Main "HOL-Library.AList"
begin

section \<open>File aligner\<close>

subsection \<open>Identifier extraction\<close>

text \<open>
  Filenames are HOL strings. Python's \<^verbatim>\<open>\d\<close> on a \<^verbatim>\<open>str\<close> matches every Unicode
  decimal digit; among the code points below 256, which are the ones a HOL character
  stands for, those are exactly \<^verbatim>\<open>0\<close> to \<^verbatim>\<open>9\<close> (code points 48 to 57).
\<close>

definition is_digit :: "char \<Rightarrow> bool" where
  "is_digit c = (48 \<le> (of_char c :: nat) \<and> (of_char c :: nat) \<le> 57)"

definition digit_val :: "char \<Rightarrow> int" where
  "digit_val c = int (of_char c) - 48"

text \<open>
  \<^verbatim>\<open>re.findall(r'\d+', filename)\<close>: the scan goes left to right, a match is a
  maximal run of digits, and the scan resumes right after it.
\<close>

function findall_digits :: "string \<Rightarrow> string list" where
  "findall_digits [] = []"
| "findall_digits (c # cs) =
     (if is_digit c
      then (c # takeWhile is_digit cs) # findall_digits (dropWhile is_digit cs)
      else findall_digits cs)"
  by pat_completeness auto
termination
  by (relation "measure length") (auto simp: length_dropWhile_le less_Suc_eq_le)

text \<open>
  \<^verbatim>\<open>int(s)\<close> on a string of decimal digits (leading zeros are accepted). Python
  refuses a string of more than 4300 digits; a filename is too short to hold one.
\<close>

definition int_of_digits :: "string \<Rightarrow> int" where
  "int_of_digits ds = foldl (\<lambda>n c. 10 * n + digit_val c) 0 ds"

text \<open>
  \<^verbatim>\<open>_extract_number\<close> (an Isabelle name cannot start with an underscore):
  \<^verbatim>\<open>nums = re.findall(r'\d+', filename); return int(nums[-1]) if nums else -1\<close>.
\<close>

definition extract_number :: "string \<Rightarrow> int" where
  "extract_number filename =
     (let nums = findall_digits filename
      in if nums \<noteq> [] then int_of_digits (last nums) else - 1)"

text \<open>
  The value of a run of digits as the claim words it: the number the digits denote in
  base ten, the digit at index \<open>i\<close> weighted by ten to the number of digits after it.
\<close>

definition decimal_value :: "string \<Rightarrow> int" where
  "decimal_value ds = (\<Sum>i<length ds. digit_val (ds ! i) * 10 ^ (length ds - 1 - i))"

text \<open>
  \<open>ds\<close> is the last run of consecutive digits of \<open>s\<close>, between \<open>pre\<close> and \<open>post\<close>:
  no digit comes after it, and it is not the tail of a longer run.
\<close>

definition is_last_digit_run :: "string \<Rightarrow> string \<Rightarrow> string \<Rightarrow> string \<Rightarrow> bool" where
  "is_last_digit_run s pre ds post =
     (s = pre @ ds @ post \<and> ds \<noteq> [] \<and> list_all is_digit ds \<and>
      list_all (\<lambda>c. \<not> is_digit c) post \<and> (pre = [] \<or> \<not> is_digit (last pre)))"

subsection \<open>Directory listings\<close>

text \<open>
  \<^verbatim>\<open>str.lower\<close>, on the letters that can matter: the result is only compared with
  ASCII extensions, and no character outside ASCII lowers to an ASCII one below
  code point 256.
\<close>

definition lower_char :: "char \<Rightarrow> char" where
  "lower_char c =
     (if 65 \<le> (of_char c :: nat) \<and> (of_char c :: nat) \<le> 90
      then char_of ((of_char c :: nat) + 32) else c)"

definition lower :: "string \<Rightarrow> string" where
  "lower s = map lower_char s"

text \<open>
  \<^verbatim>\<open>os.path.splitext(f)[1]\<close> for a name without a directory separator (what
  \<^verbatim>\<open>os.listdir\<close> returns): the extension starts at the last dot, provided some
  character before that dot is not a dot; otherwise it is empty.
\<close>

definition splitext_ext :: "string \<Rightarrow> string" where
  "splitext_ext p =
     (let after = rev (takeWhile (\<lambda>c. c \<noteq> CHR ''.'') (rev p));
          before = take (length p - length after - 1) p
      in if CHR ''.'' \<in> set p \<and> (\<exists>c\<in>set before. c \<noteq> CHR ''.'')
         then CHR ''.'' # after else [])"

definition endswith :: "string \<Rightarrow> string \<Rightarrow> bool" where
  "endswith s suffix = (length suffix \<le> length s \<and> drop (length s - length suffix) s = suffix)"

definition exts :: "string set" where
  "exts = {''.tif'', ''.tiff'', ''.png'', ''.jpg'', ''.jpeg'', ''.bmp''}"

text \<open>
  \<^verbatim>\<open>_list_images\<close> and \<^verbatim>\<open>_list_tracks\<close>, on the names \<^verbatim>\<open>os.listdir\<close> gave.
  Python's \<^verbatim>\<open>sorted\<close> is stable, as \<^const>\<open>sort_key\<close> is.
\<close>

definition list_images :: "string list \<Rightarrow> string list" where
  "list_images listing =
     (let files = filter (\<lambda>f. lower (splitext_ext f) \<in> exts) listing
      in sort_key extract_number files)"

definition list_tracks :: "string list \<Rightarrow> string list" where
  "list_tracks listing =
     (let files = filter (\<lambda>f. endswith (lower f) ''.csv'') listing
      in sort_key extract_number files)"

subsection \<open>Alignment\<close>

text \<open>
  A dict comprehension \<^verbatim>\<open>{self._extract_number(f): f for f in files}\<close>: a key keeps
  the place of its first insertion and the value of its last, which is what
  \<^const>\<open>AList.update\<close> does on an association list.
\<close>

definition number_map :: "string list \<Rightarrow> (int \<times> string) list" where
  "number_map files = foldl (\<lambda>m f. AList.update (extract_number f) f m) [] files"

text \<open>\<^verbatim>\<open>set(d)\<close>, the keys of a dict, and \<^verbatim>\<open>d[k]\<close> for a key of \<^verbatim>\<open>d\<close>.\<close>

definition keys :: "(int \<times> string) list \<Rightarrow> int set" where
  "keys m = set (map fst m)"

definition getitem :: "(int \<times> string) list \<Rightarrow> int \<Rightarrow> string" where
  "getitem m k = the (map_of m k)"

text \<open>The identifiers extracted from a collection of filenames, as a set.\<close>

definition identifiers :: "string list \<Rightarrow> int set" where
  "identifiers files = extract_number ` set files"

text \<open>What the program prints, as values.\<close>

datatype notice =
    Missing_sets "int list"
  | Loaded nat

type_synonym triplet = "int \<times> string \<times> string \<times> string"

text \<open>
  \<^verbatim>\<open>_align_files\<close>. The result is the list \<^verbatim>\<open>aligned\<close> together with what was
  printed: the warning with \<^verbatim>\<open>sorted(missing)\<close> when \<^verbatim>\<open>missing\<close> is not empty,
  nothing otherwise. Every \<^verbatim>\<open>num\<close> of the loop is a key of the three dicts, so no
  lookup raises.
\<close>

definition align_files :: "string list \<Rightarrow> string list \<Rightarrow> string list \<Rightarrow> triplet list \<times> notice list" where
  "align_files roi_files gt_files track_files =
     (let roi_map = number_map roi_files;
          gt_map = number_map gt_files;
          track_map = number_map track_files;
          aligned = map (\<lambda>num. (num, getitem roi_map num, getitem gt_map num, getitem track_map num))
                      (sorted_list_of_set (keys roi_map \<inter> keys gt_map \<inter> keys track_map));
          all_nums = keys roi_map \<union> keys gt_map \<union> keys track_map;
          missing = all_nums - set (map fst aligned)
      in (aligned, if missing \<noteq> {} then [Missing_sets (sorted_list_of_set missing)] else []))"

section \<open>Mask loader and normalizer\<close>

text \<open>
  A mask is a two-dimensional \<^verbatim>\<open>uint8\<close> array, held as the list of its rows. A decoded
  image is two-dimensional, or three-dimensional with the channels last; a pixel of the
  latter is its channel 0 and its remaining channels, so that \<^verbatim>\<open>img[..., 0]\<close> is total.
  Arrays of any other rank are outside the type.
\<close>

type_synonym mask = "nat list list"

datatype 'a image =
    Gray "'a list list"
  | Multi "('a \<times> 'a list) list list"

definition height :: "'a list list \<Rightarrow> nat" where
  "height m = length m"

definition width :: "'a list list \<Rightarrow> nat" where
  "width m = (case m of [] \<Rightarrow> 0 | r # _ \<Rightarrow> length r)"

text \<open>The rows of an array all have its width.\<close>

definition is_array :: "'a list list \<Rightarrow> bool" where
  "is_array m = list_all (\<lambda>r. length r = width m) m"

definition binary :: "mask \<Rightarrow> bool" where
  "binary m = list_all (list_all (\<lambda>v. v = 0 \<or> v = 1)) m"

text \<open>
  \<^verbatim>\<open>_read_mask\<close>, on the array \<^verbatim>\<open>io.imread(path)\<close> decoded:
  \<^verbatim>\<open>if img.ndim == 3: img = img[..., 0]\<close>, then \<^verbatim>\<open>(img > 0).astype(np.uint8)\<close>.
\<close>

definition read_mask :: "'a::{zero,ord} image \<Rightarrow> mask" where
  "read_mask img =
     (let img = (case img of Gray g \<Rightarrow> g | Multi m \<Rightarrow> map (map fst) m)
      in map (map (\<lambda>v. if v > 0 then 1 else 0)) img)"

text \<open>
  \<^verbatim>\<open>skimage.transform.resize(image, output_shape, order, preserve_range, anti_aliasing)\<close>
  is a library function: it is a parameter of the model, called with the arguments the
  source passes to it. Its result is an array of floats.
\<close>

type_synonym resizer = "mask \<Rightarrow> nat \<times> nat \<Rightarrow> nat \<Rightarrow> bool \<Rightarrow> bool \<Rightarrow> rat list list"

text \<open>
  \<^verbatim>\<open>_read_gt\<close>. An array with no row has height 0 and takes the last branch whatever
  its width, so the width of the empty list of rows is never decisive.
\<close>

definition read_gt :: "resizer \<Rightarrow> 'a::{zero,ord} image \<Rightarrow> mask" where
  "read_gt resize img =
     (let mask = read_mask img
      in if (height mask, width mask) = (428, 428) then mask
         else let h = height mask; w = width mask
              in if h \<ge> 428 \<and> w \<ge> 428
                 then let sh = (h - 428) div 2; sw = (w - 428) div 2
                      in map (\<lambda>row. take 428 (drop sw row)) (take 428 (drop sh mask))
                 else let resized = resize mask (428, 428) 0 True False
                      in map (map (\<lambda>v. if v > 1 / 2 then 1 else 0)) resized)"

text \<open>
  The 428 by 428 window of an array that starts at row \<open>sh\<close> and column \<open>sw\<close>, as the
  claim words the crop: element \<open>(i, j)\<close> of the window is element \<open>(sh + i, sw + j)\<close> of
  the array.
\<close>

definition window :: "nat \<Rightarrow> nat \<Rightarrow> 'a list list \<Rightarrow> 'a list list" where
  "window sh sw m = map (\<lambda>i. map (\<lambda>j. m ! (sh + i) ! (sw + j)) [0..<428]) [0..<428]"

subsection \<open>Track tables\<close>

text \<open>
  A row of the CSV, and the same row with the two derived columns. Positions are floats
  in the source and exact rationals here; \<^verbatim>\<open>astype(int)\<close> gives a 64-bit integer in
  the source and an unbounded one here.
\<close>

record raw_row =
  Frame :: int
  Track_ID :: int
  X_nm :: rat
  Y_nm :: rat

record track_row = raw_row +
  X_px :: int
  Y_px :: int

text \<open>
  \<^verbatim>\<open>Series.round()\<close> is numpy's rounding: to the nearest integer, a tie going to the
  even neighbour.
\<close>

definition round_half_even :: "rat \<Rightarrow> int" where
  "round_half_even x =
     (let f = \<lfloor>x\<rfloor>; d = x - of_int f
      in if d < 1 / 2 then f
         else if d > 1 / 2 then f + 1
         else if even f then f else f + 1)"

text \<open>The default of the constructor's parameter \<^verbatim>\<open>nm_per_pixel\<close>.\<close>

definition default_nm_per_pixel :: rat where
  "default_nm_per_pixel = 117"

datatype 'e error =
    No_aligned_files
  | Non_finite_to_int
  | Underlying 'e

text \<open>
  \<^verbatim>\<open>_load_tracks\<close>, on the rows \<^verbatim>\<open>pd.read_csv(path)\<close> parsed. Dividing a float column
  by zero gives infinities and NaN, which \<^verbatim>\<open>astype(int)\<close> refuses.
\<close>

definition load_tracks :: "rat \<Rightarrow> raw_row list \<Rightarrow> 'e error + track_row list" where
  "load_tracks nm_per_pixel df =
     (if nm_per_pixel = 0 \<and> df \<noteq> [] then Inl Non_finite_to_int
      else Inr (map (\<lambda>r. raw_row.extend r
                    (track_row.fields (round_half_even (X_nm r / nm_per_pixel))
                                      (round_half_even (Y_nm r / nm_per_pixel)))) df))"

section \<open>Construction\<close>

record entry =
  file_number :: int
  roi_file :: string
  gt_file :: string
  track_file :: string
  roi_mask :: mask
  gt_mask :: mask
  tracks :: "track_row list"

record evaluator =
  roi_dir :: string
  gt_dir :: string
  track_dir :: string
  nm_per_pixel :: rat
  roi_files :: "string list"
  gt_files :: "string list"
  track_files :: "string list"
  file_triplets :: "triplet list"
  data :: "entry list"

text \<open>
  The file system the constructor reads: \<^verbatim>\<open>os.listdir\<close>, \<^verbatim>\<open>io.imread\<close> and
  \<^verbatim>\<open>pd.read_csv\<close>, each of which may raise an error of its own. A file is named by its
  directory and its name (\<^verbatim>\<open>os.path.join\<close>).
\<close>

record ('e, 'a) world =
  listdir :: "string \<Rightarrow> 'e + string list"
  imread :: "string \<times> string \<Rightarrow> 'e + 'a image"
  read_csv :: "string \<times> string \<Rightarrow> 'e + raw_row list"

text \<open>The loading loop of the constructor; the first error ends it.\<close>

fun load_data :: "('e, 'a::{zero,ord}) world \<Rightarrow> resizer \<Rightarrow> string \<Rightarrow> string \<Rightarrow> string \<Rightarrow> rat \<Rightarrow>
    triplet list \<Rightarrow> 'e error + entry list" where
  "load_data W resize rd gd td nm [] = Inr []"
| "load_data W resize rd gd td nm ((num, roi_name, gt_name, track_name) # rest) =
     (case imread W (rd, roi_name) of Inl e \<Rightarrow> Inl (Underlying e) | Inr roi_img \<Rightarrow>
     (case imread W (gd, gt_name) of Inl e \<Rightarrow> Inl (Underlying e) | Inr gt_img \<Rightarrow>
     (case read_csv W (td, track_name) of Inl e \<Rightarrow> Inl (Underlying e) | Inr csv \<Rightarrow>
     (case load_tracks nm csv of Inl e \<Rightarrow> Inl e | Inr df_tracks \<Rightarrow>
     (case load_data W resize rd gd td nm rest of Inl e \<Rightarrow> Inl e | Inr es \<Rightarrow>
        Inr (\<lparr>file_number = num, roi_file = roi_name, gt_file = gt_name, track_file = track_name,
              roi_mask = read_mask roi_img, gt_mask = read_gt resize gt_img,
              tracks = df_tracks\<rparr> # es))))))"

text \<open>
  \<^verbatim>\<open>MaskTrackEvaluator.__init__\<close>: what was printed, and the error raised or the
  object built.
\<close>

definition init :: "('e, 'a::{zero,ord}) world \<Rightarrow> resizer \<Rightarrow> string \<Rightarrow> string \<Rightarrow> string \<Rightarrow> rat \<Rightarrow>
    notice list \<times> ('e error + evaluator)" where
  "init W resize rd gd td nm =
     (case listdir W rd of Inl e \<Rightarrow> ([], Inl (Underlying e)) | Inr roi_listing \<Rightarrow>
     (case listdir W gd of Inl e \<Rightarrow> ([], Inl (Underlying e)) | Inr gt_listing \<Rightarrow>
     (case listdir W td of Inl e \<Rightarrow> ([], Inl (Underlying e)) | Inr track_listing \<Rightarrow>
      let rf = list_images roi_listing;
          gf = list_images gt_listing;
          tf = list_tracks track_listing;
          (aligned, printed) = align_files rf gf tf
      in if aligned = [] then (printed, Inl No_aligned_files)
         else (case load_data W resize rd gd td nm aligned of
                 Inl e \<Rightarrow> (printed, Inl e)
               | Inr es \<Rightarrow>
                   (printed @ [Loaded (length es)],
                    Inr \<lparr>roi_dir = rd, gt_dir = gd, track_dir = td, nm_per_pixel = nm,
                         roi_files = rf, gt_files = gf, track_files = tf,
                         file_triplets = aligned, data = es\<rparr>)))))"

section \<open>Metrics engine\<close>

text \<open>
  numpy's elementwise operations, on two arrays of one shape (arrays of different shapes
  are broadcast or refused by numpy; the metrics are stated for arrays of one shape, and
  every theorem below assumes it). \<^verbatim>\<open>logical_and\<close> and \<^verbatim>\<open>logical_or\<close> read a
  non-zero element as true; \<^verbatim>\<open>sum\<close> of a boolean array counts the true elements and
  \<^verbatim>\<open>sum\<close> of a \<^verbatim>\<open>uint8\<close> array adds the elements in a 64-bit accumulator.
\<close>

definition same_shape :: "'a list list \<Rightarrow> 'b list list \<Rightarrow> bool" where
  "same_shape a b = (map length a = map length b)"

definition logical_and :: "mask \<Rightarrow> mask \<Rightarrow> bool list list" where
  "logical_and a b = map2 (map2 (\<lambda>x y. x \<noteq> 0 \<and> y \<noteq> 0)) a b"

definition logical_or :: "mask \<Rightarrow> mask \<Rightarrow> bool list list" where
  "logical_or a b = map2 (map2 (\<lambda>x y. x \<noteq> 0 \<or> y \<noteq> 0)) a b"

definition sum_bool :: "bool list list \<Rightarrow> nat" where
  "sum_bool m = sum_list (map (\<lambda>row. length (filter (\<lambda>v. v) row)) m)"

definition sum_uint8 :: "mask \<Rightarrow> nat" where
  "sum_uint8 m = sum_list (map sum_list m)"

text \<open>
  The metrics are floats in the source and exact rationals here. Both quotients are of
  two integers below \<open>2 ^ 53\<close>, so the float is the correctly rounded quotient: 0 and 1
  are exact, and rounding keeps the order.
\<close>

definition jaccard_index :: "mask \<Rightarrow> mask \<Rightarrow> rat" where
  "jaccard_index a b =
     (let inter = sum_bool (logical_and a b);
          union = sum_bool (logical_or a b)
      in if union = 0 then 1 else of_nat inter / of_nat union)"

definition dice_coefficient :: "mask \<Rightarrow> mask \<Rightarrow> rat" where
  "dice_coefficient a b =
     (let inter = sum_bool (logical_and a b);
          denom = sum_uint8 a + sum_uint8 b
      in if denom = 0 then 1 else of_nat (2 * inter) / of_nat denom)"

text \<open>
  The positions \<^verbatim>\<open>np.where(cond)\<close> lists, row by row, as (row, column) pairs, for the
  condition \<open>P\<close> on the elements.
\<close>

definition np_where :: "('a \<Rightarrow> bool) \<Rightarrow> 'a list list \<Rightarrow> (nat \<times> nat) list" where
  "np_where P m =
     concat (map (\<lambda>(y, row). map (\<lambda>x. (y, x)) (filter (\<lambda>x. P (row ! x)) [0..<length row]))
               (enumerate 0 m))"

text \<open>
  The foreground of a mask as the claims speak of it: the set of the positions of its
  non-zero elements. \<open>|a|\<close> is its cardinality.
\<close>

definition foreground :: "mask \<Rightarrow> (nat \<times> nat) set" where
  "foreground m = set (np_where (\<lambda>v. v \<noteq> 0) m)"





subsection \<open>Tracks against masks\<close>















section \<open>Aggregation\<close>

text \<open>
  A pandas DataFrame, as far as \<^verbatim>\<open>summarize_results\<close> looks at one: the columns in
  order, each with its name, the kind of its dtype (a number dtype, \<^verbatim>\<open>int64\<close> or
  \<^verbatim>\<open>float64\<close>, or \<^verbatim>\<open>object\<close>) and its cells from the first row to the last. Numbers
  are exact rationals, whether the dtype is \<^verbatim>\<open>int64\<close> or \<^verbatim>\<open>float64\<close>.
\<close>

datatype cell = Num rat | Str string | NaN

datatype dtype = Number | Object

type_synonym frame = "(string \<times> dtype \<times> cell list) list"

definition columns :: "frame \<Rightarrow> string list" where
  "columns df = map fst df"





text \<open>
  \<^verbatim>\<open>Series.mean()\<close>: the mean of the cells that are not NaN, and NaN when there is
  none.
\<close>

definition numbers :: "cell list \<Rightarrow> rat list" where
  "numbers cells = concat (map (\<lambda>c. case c of Num v \<Rightarrow> [v] | _ \<Rightarrow> []) cells)"

definition mean :: "cell list \<Rightarrow> cell" where
  "mean cells =
     (let vs = numbers cells
      in if vs = [] then NaN else Num (sum_list vs / of_nat (length vs)))"




text \<open>The dict \<^verbatim>\<open>summary\<close> of \<^verbatim>\<open>summarize_results\<close>, once the label is stored in it.\<close>

definition summary_of :: "frame \<Rightarrow> string \<Rightarrow> (string \<times> cell) list" where
  "summary_of df label =
     AList.update ''File Number'' (Str label)
       (map (\<lambda>(name, dt, cells). (name, mean cells)) (filter (\<lambda>(name, dt, cells). dt = Number) df))"



section \<open>Verification: identifier extraction\<close>

lemma findall_digits_none: "\<forall>c\<in>set s. \<not> is_digit c \<Longrightarrow> findall_digits s = []"
  by (induction s) auto

lemma findall_digits_append:
  "xs = [] \<or> \<not> is_digit (last xs) \<Longrightarrow> findall_digits (xs @ ys) = findall_digits xs @ findall_digits ys"
proof (induction xs rule: findall_digits.induct)
  case 1
  then show ?case by simp
next
  case (2 c cs)
  show ?case
  proof (cases "is_digit c")
    case False
    with 2 show ?thesis by (auto split: if_splits)
  next
    case True
    with "2.prems" have ne: "cs \<noteq> []" and l: "\<not> is_digit (last cs)" by (auto split: if_splits)
    then have mem: "last cs \<in> set cs" by simp
    have t: "takeWhile is_digit (cs @ ys) = takeWhile is_digit cs"
      using mem l by (rule takeWhile_append1)
    have d: "dropWhile is_digit (cs @ ys) = dropWhile is_digit cs @ ys"
      using mem l by (rule dropWhile_append1)
    have dne: "dropWhile is_digit cs \<noteq> []"
      using mem l by auto
    have "last (dropWhile is_digit cs) = last cs"
      using dne by (metis last_appendR takeWhile_dropWhile_id)
    with l dne have "dropWhile is_digit cs = [] \<or> \<not> is_digit (last (dropWhile is_digit cs))" by simp
    from "2.IH"(1)[OF True this] show ?thesis using True t d by simp
  qed
qed

lemma findall_digits_run:
  assumes "ds \<noteq> []" "\<forall>c\<in>set ds. is_digit c" "\<forall>c\<in>set post. \<not> is_digit c"
  shows "findall_digits (ds @ post) = [ds]"
proof -
  obtain c cs where ds: "ds = c # cs" using assms(1) by (cases ds) auto
  have t0: "takeWhile is_digit post = []" using assms(3) by (cases post) auto
  have d0: "dropWhile is_digit post = post" using assms(3) by (cases post) auto
  have t: "takeWhile is_digit (cs @ post) = cs" using assms(2) ds t0 by simp
  have d: "dropWhile is_digit (cs @ post) = post" using assms(2) ds d0 by simp
  show ?thesis using ds assms(2) t d findall_digits_none[OF assms(3)] by simp
qed

lemma extract_number_decomp:
  assumes "s = pre @ ds @ post" "ds \<noteq> []" "\<forall>c\<in>set ds. is_digit c" "\<forall>c\<in>set post. \<not> is_digit c"
    "pre = [] \<or> \<not> is_digit (last pre)"
  shows "extract_number s = int_of_digits ds"
  using assms findall_digits_append[OF assms(5), of "ds @ post"] findall_digits_run[OF assms(2-4)]
  by (simp add: extract_number_def)

lemma int_of_digits_snoc: "int_of_digits (ds @ [c]) = 10 * int_of_digits ds + digit_val c"
  by (simp add: int_of_digits_def)

lemma decimal_value_snoc: "decimal_value (ds @ [c]) = 10 * decimal_value ds + digit_val c"
proof -
  have "(\<Sum>i<length ds. digit_val ((ds @ [c]) ! i) * 10 ^ (length ds - i))
      = (\<Sum>i<length ds. 10 * (digit_val (ds ! i) * 10 ^ (length ds - 1 - i)))"
  proof (rule sum.cong)
    fix i assume "i \<in> {..<length ds}"
    then have i: "i < length ds" by simp
    then have "length ds - i = Suc (length ds - 1 - i)" by arith
    then show "digit_val ((ds @ [c]) ! i) * 10 ^ (length ds - i) = 10 * (digit_val (ds ! i) * 10 ^ (length ds - 1 - i))"
      using i by (simp add: nth_append)
  qed simp
  then show ?thesis
    by (simp add: decimal_value_def sum_distrib_left)
qed

lemma int_of_digits_decimal: "int_of_digits ds = decimal_value ds"
proof (induction ds rule: rev_induct)
  case Nil
  show ?case by (simp add: int_of_digits_def decimal_value_def)
next
  case (snoc c ds)
  then show ?case by (simp add: int_of_digits_snoc decimal_value_snoc)
qed

lemma digit_val_nonneg: "is_digit c \<Longrightarrow> 0 \<le> digit_val c"
  by (simp add: is_digit_def digit_val_def)

lemma int_of_digits_nonneg: "\<forall>c\<in>set ds. is_digit c \<Longrightarrow> 0 \<le> int_of_digits ds"
  by (induction ds rule: rev_induct) (auto simp: int_of_digits_snoc digit_val_nonneg int_of_digits_def)

lemma last_run_exists:
  assumes "\<exists>c\<in>set s. is_digit c"
  shows "\<exists>pre ds post. s = pre @ ds @ post \<and> ds \<noteq> [] \<and> (\<forall>c\<in>set ds. is_digit c) \<and>
           (\<forall>c\<in>set post. \<not> is_digit c) \<and> (pre = [] \<or> \<not> is_digit (last pre))"
proof -
  define r where "r = dropWhile (\<lambda>c. \<not> is_digit c) (rev s)"
  define post where "post = rev (takeWhile (\<lambda>c. \<not> is_digit c) (rev s))"
  define ds where "ds = rev (takeWhile is_digit r)"
  define pre where "pre = rev (dropWhile is_digit r)"
  have s: "s = rev r @ post"
    unfolding r_def post_def by (metis rev_append rev_rev_ident takeWhile_dropWhile_id)
  have r: "rev r = pre @ ds"
    unfolding pre_def ds_def by (metis rev_append takeWhile_dropWhile_id)
  have rne: "r \<noteq> []" using assms unfolding r_def by auto
  then have hd: "is_digit (hd r)" unfolding r_def using hd_dropWhile by (metis (mono_tags))
  have dsne: "ds \<noteq> []" using rne hd unfolding ds_def by (cases r) auto
  have dsd: "\<forall>c\<in>set ds. is_digit c" unfolding ds_def by (auto dest: set_takeWhileD)
  have pd: "\<forall>c\<in>set post. \<not> is_digit c" unfolding post_def by (auto dest: set_takeWhileD)
  have pr: "pre = [] \<or> \<not> is_digit (last pre)"
    unfolding pre_def by (metis hd_dropWhile last_rev rev_is_Nil_conv)
  show ?thesis using s r dsne dsd pd pr by (intro exI[of _ pre] exI[of _ ds] exI[of _ post]) simp
qed


text \<open>
  Claim C4. For every filename, identifier extraction returns the integer value of the
  last run of consecutive digits of the filename, and the sentinel -1 when the filename
  holds no digit: a filename with a digit has a last run of digits, the result is the
  decimal value of that run (which is never negative, so never the sentinel), the result
  for \<^verbatim>\<open>cell_007.tif\<close> is 7 and the result for \<^verbatim>\<open>noNumberHere.png\<close> is -1.
\<close>

theorem extract_number_last_digit_run:
  "(list_all (\<lambda>c. \<not> is_digit c) s \<longrightarrow> extract_number s = - 1) \<and>
   (\<not> list_all (\<lambda>c. \<not> is_digit c) s \<longrightarrow> (\<exists>pre ds post. is_last_digit_run s pre ds post)) \<and>
   (\<forall>pre ds post. is_last_digit_run s pre ds post \<longrightarrow>
      extract_number s = decimal_value ds \<and> 0 \<le> decimal_value ds) \<and>
   extract_number ''cell_007.tif'' = 7 \<and>
   extract_number ''noNumberHere.png'' = - 1"
proof (intro conjI allI impI)
  assume "list_all (\<lambda>c. \<not> is_digit c) s"
  then show "extract_number s = - 1"
    by (simp add: extract_number_def findall_digits_none list_all_iff)
next
  assume "\<not> list_all (\<lambda>c. \<not> is_digit c) s"
  then have "\<exists>c\<in>set s. is_digit c" by (simp add: list_all_iff)
  from last_run_exists[OF this] show "\<exists>pre ds post. is_last_digit_run s pre ds post"
    by (simp add: is_last_digit_run_def list_all_iff)
next
  fix pre ds post assume r: "is_last_digit_run s pre ds post"
  then show "extract_number s = decimal_value ds"
    using extract_number_decomp[of s pre ds post]
    by (simp add: is_last_digit_run_def list_all_iff int_of_digits_decimal)
  from r show "0 \<le> decimal_value ds"
    using int_of_digits_nonneg[of ds]
    by (simp add: is_last_digit_run_def list_all_iff int_of_digits_decimal)
next
  show "extract_number ''cell_007.tif'' = 7"
    by (simp add: extract_number_def int_of_digits_def digit_val_def is_digit_def)
  show "extract_number ''noNumberHere.png'' = - 1"
    by (simp add: extract_number_def int_of_digits_def digit_val_def is_digit_def)
qed

theorem extract_number_last_digit_run_witness:
  "is_last_digit_run ''img12_run034.tif'' ''img12_run'' ''034'' ''.tif'' \<and>
   extract_number ''img12_run034.tif'' = decimal_value ''034'' \<and>
   decimal_value ''034'' = 34 \<and>
   list_all (\<lambda>c. \<not> is_digit c) ''readme.txt'' \<and>
   extract_number ''readme.txt'' = - 1"
proof -
  have r: "is_last_digit_run ''img12_run034.tif'' ''img12_run'' ''034'' ''.tif''"
    by (simp add: is_last_digit_run_def is_digit_def)
  have n: "list_all (\<lambda>c. \<not> is_digit c) ''readme.txt''"
    by (simp add: is_digit_def)
  have v: "decimal_value ''034'' = 34"
    by (simp add: decimal_value_def digit_val_def lessThan_Suc numeral_3_eq_3)
  show ?thesis
    using r n v extract_number_last_digit_run[of "''img12_run034.tif''"]
      extract_number_last_digit_run[of "''readme.txt''"]
    by blast
qed

section \<open>Verification: overlap metrics\<close>

lemma np_where_iff:
  "(i, j) \<in> set (np_where P m) \<longleftrightarrow> i < length m \<and> j < length (m ! i) \<and> P (m ! i ! j)"
proof
  assume "(i, j) \<in> set (np_where P m)"
  then show "i < length m \<and> j < length (m ! i) \<and> P (m ! i ! j)"
    by (auto simp: np_where_def in_set_enumerate_eq)
next
  assume h: "i < length m \<and> j < length (m ! i) \<and> P (m ! i ! j)"
  then have e: "(i, m ! i) \<in> set (enumerate 0 m)"
    by (simp add: in_set_enumerate_eq)
  have k: "(i, j) \<in> set (case (i, m ! i) of (y, row) \<Rightarrow> map (\<lambda>x. (y, x)) (filter (\<lambda>x. P (row ! x)) [0..<length row]))"
    using h by simp
  show "(i, j) \<in> set (np_where P m)"
    unfolding np_where_def set_concat set_map image_image
    by (rule UN_I[where a = "(i, m ! i)"], rule e, rule k)
qed

lemma foreground_iff:
  "(i, j) \<in> foreground m \<longleftrightarrow> i < length m \<and> j < length (m ! i) \<and> m ! i ! j \<noteq> 0"
  by (simp add: foreground_def np_where_iff)

lemma finite_foreground: "finite (foreground m)"
  by (simp add: foreground_def)

lemma sum_bool_card:
  "sum_bool g = card {(i, j). i < length g \<and> j < length (g ! i) \<and> g ! i ! j}"
proof -
  have s: "{(i, j). i < length g \<and> j < length (g ! i) \<and> g ! i ! j}
      = (SIGMA i:{..<length g}. {j. j < length (g ! i) \<and> g ! i ! j})"
    by auto
  have c: "card (SIGMA i:{..<length g}. {j. j < length (g ! i) \<and> g ! i ! j})
      = (\<Sum>i<length g. card {j. j < length (g ! i) \<and> g ! i ! j})"
    by (rule card_SigmaI) auto
  have l: "sum_bool g = (\<Sum>i<length g. length (filter (\<lambda>v. v) (g ! i)))"
    by (simp add: sum_bool_def sum_list_sum_nth atLeast0LessThan)
  show ?thesis
    unfolding s c l by (simp add: length_filter_conv_card)
qed

lemma same_shape_length: "same_shape a b \<Longrightarrow> length a = length b"
  unfolding same_shape_def by (metis length_map)

lemma same_shape_row: "same_shape a b \<Longrightarrow> i < length a \<Longrightarrow> length (a ! i) = length (b ! i)"
  unfolding same_shape_def by (metis length_map nth_map)

lemma sum_and_card:
  assumes "same_shape a b"
  shows "sum_bool (logical_and a b) = card (foreground a \<inter> foreground b)"
proof -
  have "{(i, j). i < length (logical_and a b) \<and> j < length (logical_and a b ! i) \<and> logical_and a b ! i ! j}
      = foreground a \<inter> foreground b"
    using same_shape_length[OF assms] same_shape_row[OF assms]
    by (auto simp: logical_and_def foreground_iff)
  then show ?thesis by (simp add: sum_bool_card)
qed

lemma sum_or_card:
  assumes "same_shape a b"
  shows "sum_bool (logical_or a b) = card (foreground a \<union> foreground b)"
proof -
  have "{(i, j). i < length (logical_or a b) \<and> j < length (logical_or a b ! i) \<and> logical_or a b ! i ! j}
      = foreground a \<union> foreground b"
    using same_shape_length[OF assms] same_shape_row[OF assms]
    by (auto simp: logical_or_def foreground_iff)
  then show ?thesis by (simp add: sum_bool_card)
qed

lemma sum_list_binary:
  "list_all (\<lambda>v. v = 0 \<or> v = 1) r \<Longrightarrow> sum_list r = length (filter (\<lambda>v. v \<noteq> (0::nat)) r)"
  by (induction r) auto

lemma sum_uint8_card:
  assumes "binary a"
  shows "sum_uint8 a = card (foreground a)"
proof -
  let ?g = "map (map (\<lambda>v. v \<noteq> 0)) a"
  have r: "sum_list row = length (filter (\<lambda>v. v) (map (\<lambda>v. v \<noteq> 0) row))" if "row \<in> set a" for row
    using assms that by (simp add: binary_def list_all_iff sum_list_binary filter_map comp_def)
  have "sum_list (map sum_list a)
      = sum_list (map (\<lambda>row. length (filter (\<lambda>v. v) (map (\<lambda>v. v \<noteq> 0) row))) a)"
    by (rule arg_cong[where f = sum_list]) (simp add: r)
  then have "sum_uint8 a = sum_bool ?g"
    by (simp add: sum_uint8_def sum_bool_def comp_def)
  moreover have "{(i, j). i < length ?g \<and> j < length (?g ! i) \<and> ?g ! i ! j} = foreground a"
    by (auto simp: foreground_iff)
  ultimately show ?thesis by (simp add: sum_bool_card)
qed

lemma metrics_as_cards:
  assumes "same_shape a b" "binary a" "binary b"
  shows "jaccard_index a b =
           (if card (foreground a \<union> foreground b) = 0 then 1
            else of_nat (card (foreground a \<inter> foreground b)) / of_nat (card (foreground a \<union> foreground b)))"
    and "dice_coefficient a b =
           (if card (foreground a \<union> foreground b) = 0 then 1
            else of_nat (2 * card (foreground a \<inter> foreground b)) / of_nat (card (foreground a) + card (foreground b)))"
proof -
  show "jaccard_index a b =
           (if card (foreground a \<union> foreground b) = 0 then 1
            else of_nat (card (foreground a \<inter> foreground b)) / of_nat (card (foreground a \<union> foreground b)))"
    by (simp add: jaccard_index_def sum_and_card[OF assms(1)] sum_or_card[OF assms(1)])
  have "card (foreground a) + card (foreground b) = 0 \<longleftrightarrow> card (foreground a \<union> foreground b) = 0"
    by (simp add: finite_foreground)
  then show "dice_coefficient a b =
           (if card (foreground a \<union> foreground b) = 0 then 1
            else of_nat (2 * card (foreground a \<inter> foreground b)) / of_nat (card (foreground a) + card (foreground b)))"
    by (simp add: dice_coefficient_def sum_and_card[OF assms(1)] sum_uint8_card[OF assms(2)] sum_uint8_card[OF assms(3)] Let_def)
qed

lemma binary_read_mask: "binary (read_mask img)"
  by (cases img) (auto simp: read_mask_def binary_def list_all_iff)

lemma identical_masks:
  assumes "binary a" and "foreground a \<noteq> {}"
  shows "jaccard_index a a = 1" and "dice_coefficient a a = 1"
proof -
  have c: "card (foreground a) \<noteq> 0" using assms(2) by (simp add: finite_foreground)
  have s: "same_shape a a" by (simp add: same_shape_def)
  show "jaccard_index a a = 1"
    unfolding metrics_as_cards(1)[OF s assms(1) assms(1)] using c by simp
  show "dice_coefficient a a = 1"
    unfolding metrics_as_cards(2)[OF s assms(1) assms(1)] using c by simp
qed

text \<open>
  Claim C1. For two binary masks of one shape: when both are empty (the union has size 0)
  the Jaccard index and the Dice coefficient are both exactly 1; when both are non-empty
  and disjoint both are 0; when the two are identical and non-empty both are 1; and
  whenever the union is not empty the Jaccard index is \<open>|a \<inter> b| / |a \<union> b|\<close> and the Dice
  coefficient is \<open>2 |a \<inter> b| / (|a| + |b|)\<close>.
\<close>

theorem jaccard_dice_cases:
  assumes "same_shape a b" and "binary a" and "binary b"
  shows "(card (foreground a \<union> foreground b) = 0 \<longrightarrow>
            jaccard_index a b = 1 \<and> dice_coefficient a b = 1) \<and>
         (foreground a \<noteq> {} \<and> foreground b \<noteq> {} \<and> foreground a \<inter> foreground b = {} \<longrightarrow>
            jaccard_index a b = 0 \<and> dice_coefficient a b = 0) \<and>
         (a = b \<and> foreground a \<noteq> {} \<longrightarrow>
            jaccard_index a b = 1 \<and> dice_coefficient a b = 1) \<and>
         (card (foreground a \<union> foreground b) \<noteq> 0 \<longrightarrow>
            jaccard_index a b =
              of_nat (card (foreground a \<inter> foreground b)) / of_nat (card (foreground a \<union> foreground b)) \<and>
            dice_coefficient a b =
              of_nat (2 * card (foreground a \<inter> foreground b)) / of_nat (card (foreground a) + card (foreground b)))"
proof -
  note m = metrics_as_cards[OF assms]
  have empty: "jaccard_index a b = 1 \<and> dice_coefficient a b = 1"
    if "card (foreground a \<union> foreground b) = 0"
    using m that by simp
  have disjoint: "jaccard_index a b = 0 \<and> dice_coefficient a b = 0"
    if h: "foreground a \<noteq> {} \<and> foreground b \<noteq> {} \<and> foreground a \<inter> foreground b = {}"
  proof -
    from h have "card (foreground a \<union> foreground b) \<noteq> 0" by (simp add: finite_foreground)
    then show ?thesis using m h by simp
  qed
  have identical: "jaccard_index a b = 1 \<and> dice_coefficient a b = 1"
    if h: "a = b \<and> foreground a \<noteq> {}"
  proof -
    from h have ab: "b = a" by simp
    from h have ne: "foreground a \<noteq> {}" by (rule conjunct2)
    show ?thesis unfolding ab using identical_masks[OF assms(2) ne] by (rule conjI)
  qed
  have general: "jaccard_index a b =
              of_nat (card (foreground a \<inter> foreground b)) / of_nat (card (foreground a \<union> foreground b)) \<and>
            dice_coefficient a b =
              of_nat (2 * card (foreground a \<inter> foreground b)) / of_nat (card (foreground a) + card (foreground b))"
    if "card (foreground a \<union> foreground b) \<noteq> 0"
    using m that by simp
  show ?thesis using empty disjoint identical general by blast
qed


theorem jaccard_dice_cases_witness:
  "same_shape [[1, 0], [0, 1]] [[1, 1], [0, 0::nat]] \<and>
   binary [[1, 0], [0, 1]] \<and> binary [[1, 1], [0, 0]] \<and>
   card (foreground [[1, 0], [0, 1]] \<union> foreground [[1, 1], [0, 0]]) = 3 \<and>
   jaccard_index [[1, 0], [0, 1]] [[1, 1], [0, 0]] = 1 / 3 \<and>
   dice_coefficient [[1, 0], [0, 1]] [[1, 1], [0, 0]] = 1 / 2 \<and>
   card (foreground [[0, 0]] \<union> foreground [[0, 0]]) = 0 \<and>
   jaccard_index [[0, 0]] [[0, 0]] = 1 \<and> dice_coefficient [[0, 0]] [[0, 0]] = 1 \<and>
   foreground [[1, 0]] \<noteq> {} \<and> foreground [[0, 1]] \<noteq> {} \<and>
   foreground [[1, 0]] \<inter> foreground [[0, 1]] = {} \<and>
   jaccard_index [[1, 0]] [[0, 1]] = 0 \<and> dice_coefficient [[1, 0]] [[0, 1]] = 0 \<and>
   jaccard_index [[1, 0]] [[1, 0]] = 1 \<and> dice_coefficient [[1, 0]] [[1, 0]] = 1"
proof -
  have fa: "foreground [[1, 0], [0, 1]] = {(0, 0), (1, 1)}" by code_simp
  have fb: "foreground [[1, 1], [0, 0]] = {(0, 0), (0, 1)}" by code_simp
  have fz: "foreground [[0, 0]] = {}" by code_simp
  have fl: "foreground [[1, 0]] = {(0, 0)}" by code_simp
  have fr: "foreground [[0, 1]] = {(0, 1)}" by code_simp
  have u: "card (foreground [[1, 0], [0, 1]] \<union> foreground [[1, 1], [0, 0]]) = 3"
    and i: "card (foreground [[1, 0], [0, 1]] \<inter> foreground [[1, 1], [0, 0]]) = 1"
    by code_simp+
  have general: "jaccard_index [[1, 0], [0, 1]] [[1, 1], [0, 0]] = 1 / 3 \<and>
      dice_coefficient [[1, 0], [0, 1]] [[1, 1], [0, 0]] = 1 / 2"
    using jaccard_dice_cases[of "[[1, 0], [0, 1]]" "[[1, 1], [0, 0]]"] u i fa fb
    by (simp add: same_shape_def binary_def)
  have empty: "jaccard_index [[0, 0]] [[0, 0]] = 1 \<and> dice_coefficient [[0, 0]] [[0, 0]] = 1"
    using jaccard_dice_cases[of "[[0, 0]]" "[[0, 0]]"] fz
    by (simp add: same_shape_def binary_def)
  have disjoint: "jaccard_index [[1, 0]] [[0, 1]] = 0 \<and> dice_coefficient [[1, 0]] [[0, 1]] = 0"
    using jaccard_dice_cases[of "[[1, 0]]" "[[0, 1]]"] fl fr
    by (simp add: same_shape_def binary_def)
  have identical: "jaccard_index [[1, 0]] [[1, 0]] = 1 \<and> dice_coefficient [[1, 0]] [[1, 0]] = 1"
    using jaccard_dice_cases[of "[[1, 0]]" "[[1, 0]]"] fl
    by (simp add: same_shape_def binary_def)
  show ?thesis
    using general empty disjoint identical u fz fl fr
    by (simp add: same_shape_def binary_def)
qed

section \<open>Verification: bounds of the metrics and the false-positive count\<close>

lemma ratio_bounds:
  fixes i u :: nat
  assumes "i \<le> u" and "u \<noteq> 0"
  shows "rat_of_nat i / rat_of_nat u \<le> rat_of_nat (2 * i) / rat_of_nat (u + i)"
    and "0 \<le> rat_of_nat i / rat_of_nat u"
    and "rat_of_nat i / rat_of_nat u \<le> 1"
    and "0 \<le> rat_of_nat (2 * i) / rat_of_nat (u + i)"
    and "rat_of_nat (2 * i) / rat_of_nat (u + i) \<le> 1"
proof -
  have pu: "0 < rat_of_nat u" and ps: "0 < rat_of_nat (u + i)" using assms(2) by simp_all
  have "i * i \<le> i * u" using assms(1) by simp
  then have "i * (u + i) \<le> 2 * i * u" by (simp add: algebra_simps)
  then have "rat_of_nat (i * (u + i)) \<le> rat_of_nat (2 * i * u)" by (rule of_nat_mono)
  then have "rat_of_nat i * rat_of_nat (u + i) \<le> rat_of_nat (2 * i) * rat_of_nat u"
    by (simp only: of_nat_mult)
  then show "rat_of_nat i / rat_of_nat u \<le> rat_of_nat (2 * i) / rat_of_nat (u + i)"
    using pu ps by (simp only: frac_le_eq pos_divide_le_eq pos_le_divide_eq) (simp add: field_simps)
  show "0 \<le> rat_of_nat i / rat_of_nat u" by simp
  show "rat_of_nat i / rat_of_nat u \<le> 1" using assms pu by (simp add: pos_divide_le_eq)
  show "0 \<le> rat_of_nat (2 * i) / rat_of_nat (u + i)" by simp
  have "2 * i \<le> u + i" using assms(1) by simp
  then have "rat_of_nat (2 * i) \<le> rat_of_nat (u + i)" by (rule of_nat_mono)
  then show "rat_of_nat (2 * i) / rat_of_nat (u + i) \<le> 1" using ps by (simp only: pos_divide_le_eq mult_1)
qed

lemma inter_le_union: "card (foreground a \<inter> foreground b) \<le> card (foreground a \<union> foreground b)"
  by (rule card_mono) (auto simp: finite_foreground)

text \<open>
  Claim C10. For two binary masks of one shape the Jaccard index is at most the Dice
  coefficient, and both lie in the closed interval from 0 to 1.
\<close>

theorem jaccard_le_dice:
  assumes "same_shape a b" and "binary a" and "binary b"
  shows "jaccard_index a b \<le> dice_coefficient a b \<and>
         0 \<le> jaccard_index a b \<and> jaccard_index a b \<le> 1 \<and>
         0 \<le> dice_coefficient a b \<and> dice_coefficient a b \<le> 1"
proof (cases "card (foreground a \<union> foreground b) = 0")
  case True
  then show ?thesis using metrics_as_cards[OF assms] by simp
next
  case False
  have s: "card (foreground a) + card (foreground b)
      = card (foreground a \<union> foreground b) + card (foreground a \<inter> foreground b)"
    by (rule card_Un_Int) (rule finite_foreground)+
  have J: "jaccard_index a b
      = of_nat (card (foreground a \<inter> foreground b)) / of_nat (card (foreground a \<union> foreground b))"
    using metrics_as_cards(1)[OF assms] False by simp
  have D: "dice_coefficient a b
      = of_nat (2 * card (foreground a \<inter> foreground b))
        / of_nat (card (foreground a \<union> foreground b) + card (foreground a \<inter> foreground b))"
    using metrics_as_cards(2)[OF assms] False unfolding s by simp
  show ?thesis
    unfolding J D using ratio_bounds[OF inter_le_union False] by blast
qed

theorem jaccard_le_dice_witness:
  "same_shape [[1, 0], [0, 1]] [[1, 1], [0, 0::nat]] \<and>
   binary [[1, 0], [0, 1]] \<and> binary [[1, 1], [0, 0]] \<and>
   jaccard_index [[1, 0], [0, 1]] [[1, 1], [0, 0]] = 1 / 3 \<and>
   dice_coefficient [[1, 0], [0, 1]] [[1, 1], [0, 0]] = 1 / 2 \<and>
   jaccard_index [[1, 0], [0, 1]] [[1, 1], [0, 0]] \<le> dice_coefficient [[1, 0], [0, 1]] [[1, 1], [0, 0]] \<and>
   0 \<le> jaccard_index [[1, 0], [0, 1]] [[1, 1], [0, 0]] \<and>
   dice_coefficient [[1, 0], [0, 1]] [[1, 1], [0, 0]] \<le> 1"
proof -
  have h: "same_shape [[1, 0], [0, 1]] [[1, 1], [0, 0::nat]]"
    "binary [[1, 0], [0, 1]]" "binary [[1, 1], [0, 0]]"
    by (simp_all add: same_shape_def binary_def)
  have v: "jaccard_index [[1, 0], [0, 1]] [[1, 1], [0, 0]] = 1 / 3"
    "dice_coefficient [[1, 0], [0, 1]] [[1, 1], [0, 0]] = 1 / 2"
    by (simp_all add: jaccard_index_def dice_coefficient_def logical_and_def logical_or_def
        sum_bool_def sum_uint8_def)
  show ?thesis
    using h v jaccard_le_dice[OF h] by blast
qed



section \<open>Verification: ground-truth normalization\<close>

lemma take_drop_nth:
  "n + k \<le> length xs \<Longrightarrow> take k (drop n xs) = map (\<lambda>i. xs ! (n + i)) [0..<k]"
  by (rule nth_equalityI) auto

lemma read_mask_binary_grid:
  assumes "binary g"
  shows "read_mask (Gray g) = g"
proof -
  have "map (\<lambda>v. if v > 0 then 1 else 0) r = r" if "r \<in> set g" for r :: "nat list"
    using assms that by (intro map_idI) (auto simp: binary_def list_all_iff)
  then show ?thesis by (simp add: read_mask_def map_idI)
qed

lemma crop_window:
  assumes "is_array m" and "428 \<le> height m" and "428 \<le> width m"
    and sh: "sh = (height m - 428) div 2" and sw: "sw = (width m - 428) div 2"
  shows "map (\<lambda>row. take 428 (drop sw row)) (take 428 (drop sh m)) = window sh sw m"
proof -
  have h: "sh + 428 \<le> length m" using assms(2) sh by (simp add: height_def)
  have w: "sw + 428 \<le> width m" using assms(3) sw by simp
  have rows: "length (m ! (sh + i)) = width m" if "i < 428" for i
    using assms(1) h that by (simp add: is_array_def list_all_length)
  have "take 428 (drop sw (m ! (sh + i))) = map (\<lambda>j. m ! (sh + i) ! (sw + j)) [0..<428]" if "i < 428" for i
    using rows[OF that] w by (simp add: take_drop_nth)
  then show ?thesis
    by (simp add: window_def take_drop_nth[OF h])
qed


lemma width_replicate: "0 < n \<Longrightarrow> width (replicate n r) = length r"
  by (cases n) (simp_all add: width_def)

lemma width_append: "xs \<noteq> [] \<Longrightarrow> width (xs @ ys) = width xs"
  by (cases xs) (simp_all add: width_def)

lemma binary_read_gt: "binary (read_gt resize img)"
proof -
  have m: "binary (read_mask img)" by (rule binary_read_mask)
  have crop: "binary (map (\<lambda>row. take 428 (drop sw row)) (take 428 (drop sh (read_mask img))))" for sh sw
    using m by (auto simp: binary_def list_all_iff dest!: in_set_takeD in_set_dropD)
  have re: "binary (map (map (\<lambda>v. if v > 1 / 2 then 1 else 0)) (r :: rat list list))" for r
    by (auto simp: binary_def list_all_iff)
  show ?thesis
    unfolding read_gt_def Let_def using m crop re by simp
qed

text \<open>
  Claim C2. Reading a ground truth applies three tiers to every binary grid: a grid of
  shape 428 by 428 is returned as it is; otherwise a grid with both dimensions at least
  428 gives its 428 by 428 window at the offset \<open>(dim - 428) div 2\<close> of each axis (for a
  500 by 500 grid, the window at (36, 36)); otherwise, with a dimension below 428, the
  whole grid is resized to 428 by 428 with order 0 (nearest neighbour) and no
  anti-aliasing, and the result is made binary at the threshold 0.5.
\<close>

theorem read_gt_three_tiers:
  assumes "binary g" and "is_array g"
  shows "(height g = 428 \<and> width g = 428 \<longrightarrow> read_gt resize (Gray g) = g) \<and>
         (\<not> (height g = 428 \<and> width g = 428) \<and> 428 \<le> height g \<and> 428 \<le> width g \<longrightarrow>
            read_gt resize (Gray g) = window ((height g - 428) div 2) ((width g - 428) div 2) g) \<and>
         (height g = 500 \<and> width g = 500 \<longrightarrow> read_gt resize (Gray g) = window 36 36 g) \<and>
         (height g < 428 \<or> width g < 428 \<longrightarrow>
            read_gt resize (Gray g)
              = map (map (\<lambda>v. if v > 1 / 2 then 1 else 0)) (resize g (428, 428) 0 True False))"
proof -
  note rm = read_mask_binary_grid[OF assms(1)]
  have same: "read_gt resize (Gray g) = g" if "height g = 428 \<and> width g = 428"
    using that by (simp add: read_gt_def rm)
  have crop: "read_gt resize (Gray g) = window ((height g - 428) div 2) ((width g - 428) div 2) g"
    if h: "\<not> (height g = 428 \<and> width g = 428) \<and> 428 \<le> height g \<and> 428 \<le> width g"
  proof -
    have "read_gt resize (Gray g)
        = map (\<lambda>row. take 428 (drop ((width g - 428) div 2) row)) (take 428 (drop ((height g - 428) div 2) g))"
      using h by (auto simp: read_gt_def rm Let_def)
    also have "\<dots> = window ((height g - 428) div 2) ((width g - 428) div 2) g"
      using h by (intro crop_window[OF assms(2)]) simp_all
    finally show ?thesis .
  qed
  have crop500: "read_gt resize (Gray g) = window 36 36 g" if h: "height g = 500 \<and> width g = 500"
    using crop h by simp
  have small: "read_gt resize (Gray g)
      = map (map (\<lambda>v. if v > 1 / 2 then 1 else 0)) (resize g (428, 428) 0 True False)"
    if "height g < 428 \<or> width g < 428"
    using that by (auto simp: read_gt_def rm Let_def)
  show ?thesis using same crop crop500 small by blast
qed


theorem read_gt_three_tiers_witness:
  "(\<forall>resize. read_gt resize (Gray (replicate 428 (replicate 428 (1::nat))))
        = replicate 428 (replicate 428 1)) \<and>
   (\<forall>resize. read_gt resize
        (Gray (replicate 36 (replicate 500 0) @ [replicate 36 0 @ [1::nat] @ replicate 463 0]
               @ replicate 463 (replicate 500 0)))
      = window 36 36 (replicate 36 (replicate 500 0) @ [replicate 36 0 @ [1] @ replicate 463 0]
               @ replicate 463 (replicate 500 0))) \<and>
   window 36 36 (replicate 36 (replicate 500 0) @ [replicate 36 0 @ [1::nat] @ replicate 463 0]
               @ replicate 463 (replicate 500 0)) ! 0 ! 0 = 1 \<and>
   (\<forall>resize. read_gt resize (Gray [[1, 0], [0, 1::nat]])
      = map (map (\<lambda>v. if v > 1 / 2 then 1 else 0)) (resize [[1, 0], [0, 1]] (428, 428) 0 True False))"
proof (intro conjI allI)
  fix resize :: resizer
  show "read_gt resize (Gray (replicate 428 (replicate 428 (1::nat)))) = replicate 428 (replicate 428 1)"
    using read_gt_three_tiers[of "replicate 428 (replicate 428 1)" resize]
    by (simp add: binary_def is_array_def height_def width_replicate list_all_iff)
  let ?g = "replicate 36 (replicate 500 0) @ [replicate 36 0 @ [1::nat] @ replicate 463 0]
               @ replicate 463 (replicate 500 0)"
  have w: "width ?g = 500" by (simp add: width_append width_replicate)
  show "read_gt resize (Gray ?g) = window 36 36 ?g"
    using read_gt_three_tiers[of ?g resize] w
    by (auto simp: binary_def is_array_def height_def list_all_iff)
  show "window 36 36 ?g ! 0 ! 0 = 1"
    by (simp add: window_def nth_append)
  show "read_gt resize (Gray [[1, 0], [0, 1::nat]])
      = map (map (\<lambda>v. if v > 1 / 2 then 1 else 0)) (resize [[1, 0], [0, 1]] (428, 428) 0 True False)"
    using read_gt_three_tiers[of "[[1, 0], [0, 1]]" resize]
    by (simp add: binary_def is_array_def height_def width_def)
qed

section \<open>Verification: alignment\<close>

lemma number_map_snoc:
  "number_map (files @ [f]) = AList.update (extract_number f) f (number_map files)"
  by (simp add: number_map_def)

lemma keys_number_map: "keys (number_map files) = identifiers files"
proof (induction files rule: rev_induct)
  case Nil
  show ?case by (simp add: number_map_def keys_def identifiers_def)
next
  case (snoc f files)
  have "keys (number_map (files @ [f])) = insert (extract_number f) (keys (number_map files))"
    using dom_update[of "extract_number f" f "number_map files"]
    by (simp add: number_map_snoc keys_def)
  then show ?case using snoc by (simp add: identifiers_def)
qed

lemma map_of_number_map:
  "map_of (number_map files) k = Some f \<Longrightarrow> f \<in> set files \<and> extract_number f = k"
proof (induction files rule: rev_induct)
  case Nil
  then show ?case by (simp add: number_map_def)
next
  case (snoc g files)
  then show ?case
    by (auto simp: number_map_snoc update_conv' split: if_splits)
qed

lemma getitem_number_map:
  assumes "k \<in> identifiers files"
  shows "getitem (number_map files) k \<in> set files \<and> extract_number (getitem (number_map files) k) = k"
proof -
  from assms have "k \<in> fst ` set (number_map files)"
    using keys_number_map[of files] by (simp add: keys_def)
  then obtain f where "map_of (number_map files) k = Some f"
    by (metis domD dom_map_of_conv_image_fst)
  then show ?thesis using map_of_number_map[of files k f] by (simp add: getitem_def)
qed

lemma if_neq_flip: "(if A \<noteq> B then x else y) = (if A = B then y else x)"
  by simp

lemma finite_identifiers: "finite (identifiers files)"
  by (simp add: identifiers_def)


text \<open>
  Claim C3. Alignment returns exactly the identifiers in the intersection of the three
  collections' extracted identifiers, as triplets in ascending order of the identifier,
  each triplet naming a file of each collection with that identifier; and it reports
  exactly the identifiers of the union that are not in the intersection (nothing when
  there is none). For collections with identifiers {1,2,3}, {2,3,4} and {2,3} the aligned
  identifiers are 2 and 3 and the reported ones 1 and 4.
\<close>

theorem align_files_intersection:
  "map fst (fst (align_files R G T))
     = sorted_list_of_set (identifiers R \<inter> identifiers G \<inter> identifiers T) \<and>
   sorted (map fst (fst (align_files R G T))) \<and>
   distinct (map fst (fst (align_files R G T))) \<and>
   set (map fst (fst (align_files R G T))) = identifiers R \<inter> identifiers G \<inter> identifiers T \<and>
   (\<forall>(num, r, g, t) \<in> set (fst (align_files R G T)).
      r \<in> set R \<and> g \<in> set G \<and> t \<in> set T \<and>
      extract_number r = num \<and> extract_number g = num \<and> extract_number t = num) \<and>
   snd (align_files R G T)
     = (if (identifiers R \<union> identifiers G \<union> identifiers T)
            - (identifiers R \<inter> identifiers G \<inter> identifiers T) = {} then []
        else [Missing_sets (sorted_list_of_set
               ((identifiers R \<union> identifiers G \<union> identifiers T)
                - (identifiers R \<inter> identifiers G \<inter> identifiers T)))])"
proof -
  let ?common = "identifiers R \<inter> identifiers G \<inter> identifiers T"
  have fin: "finite ?common" by (simp add: finite_identifiers)
  have ids: "map fst (fst (align_files R G T)) = sorted_list_of_set ?common"
    by (simp add: align_files_def Let_def keys_number_map comp_def)
  have s: "set (map fst (fst (align_files R G T))) = ?common"
    unfolding ids using fin by simp
  have files: "r \<in> set R \<and> g \<in> set G \<and> t \<in> set T \<and>
      extract_number r = num \<and> extract_number g = num \<and> extract_number t = num"
    if "(num, r, g, t) \<in> set (fst (align_files R G T))" for num r g t
  proof -
    from that have "num \<in> ?common"
      and "r = getitem (number_map R) num" and "g = getitem (number_map G) num"
      and "t = getitem (number_map T) num"
      using fin by (auto simp: align_files_def Let_def keys_number_map)
    then show ?thesis
      using getitem_number_map[of num R] getitem_number_map[of num G] getitem_number_map[of num T]
      by simp
  qed
  have "snd (align_files R G T)
     = (if (identifiers R \<union> identifiers G \<union> identifiers T)
            - set (map fst (fst (align_files R G T))) \<noteq> {}
        then [Missing_sets (sorted_list_of_set
               ((identifiers R \<union> identifiers G \<union> identifiers T)
                - set (map fst (fst (align_files R G T)))))]
        else [])"
    unfolding align_files_def Let_def keys_number_map by (simp only: fst_conv snd_conv)
  then have printed: "snd (align_files R G T)
     = (if (identifiers R \<union> identifiers G \<union> identifiers T) - ?common = {} then []
        else [Missing_sets (sorted_list_of_set
               ((identifiers R \<union> identifiers G \<union> identifiers T) - ?common))])"
    unfolding s by (rule trans) (rule if_neq_flip)
  have sd: "sorted (map fst (fst (align_files R G T)))" "distinct (map fst (fst (align_files R G T)))"
    unfolding ids by simp_all
  show ?thesis
    using ids sd s files printed by blast
qed

theorem align_files_intersection_witness:
  "identifiers [''roi_1.png'', ''roi_2.png'', ''roi_3.png''] = {1, 2, 3} \<and>
   identifiers [''gt_2.tif'', ''gt_3.tif'', ''gt_4.tif''] = {2, 3, 4} \<and>
   identifiers [''tracks_2.csv'', ''tracks_3.csv''] = {2, 3} \<and>
   map fst (fst (align_files [''roi_1.png'', ''roi_2.png'', ''roi_3.png'']
     [''gt_2.tif'', ''gt_3.tif'', ''gt_4.tif''] [''tracks_2.csv'', ''tracks_3.csv''])) = [2, 3] \<and>
   snd (align_files [''roi_1.png'', ''roi_2.png'', ''roi_3.png'']
     [''gt_2.tif'', ''gt_3.tif'', ''gt_4.tif''] [''tracks_2.csv'', ''tracks_3.csv''])
     = [Missing_sets [1, 4]] \<and>
   fst (align_files [''roi_1.png'', ''roi_2.png'', ''roi_3.png'']
     [''gt_2.tif'', ''gt_3.tif'', ''gt_4.tif''] [''tracks_2.csv'', ''tracks_3.csv''])
     = [(2, ''roi_2.png'', ''gt_2.tif'', ''tracks_2.csv''),
        (3, ''roi_3.png'', ''gt_3.tif'', ''tracks_3.csv'')]"
proof -
  have r: "identifiers [''roi_1.png'', ''roi_2.png'', ''roi_3.png''] = {1, 2, 3}"
    and g: "identifiers [''gt_2.tif'', ''gt_3.tif'', ''gt_4.tif''] = {2, 3, 4}"
    and t: "identifiers [''tracks_2.csv'', ''tracks_3.csv''] = {2, 3}"
    by code_simp+
  have common: "sorted_list_of_set ({1, 2, 3} \<inter> {2, 3, 4} \<inter> {2, 3::int}) = [2, 3]"
    and missing: "sorted_list_of_set (({1, 2, 3} \<union> {2, 3, 4} \<union> {2, 3::int})
        - ({1, 2, 3} \<inter> {2, 3, 4} \<inter> {2, 3})) = [1, 4]"
    and some: "({1, 2, 3} \<union> {2, 3, 4} \<union> {2, 3::int}) - ({1, 2, 3} \<inter> {2, 3, 4} \<inter> {2, 3}) \<noteq> {}"
    by code_simp+
  have triplets: "fst (align_files [''roi_1.png'', ''roi_2.png'', ''roi_3.png'']
     [''gt_2.tif'', ''gt_3.tif'', ''gt_4.tif''] [''tracks_2.csv'', ''tracks_3.csv''])
     = [(2, ''roi_2.png'', ''gt_2.tif'', ''tracks_2.csv''),
        (3, ''roi_3.png'', ''gt_3.tif'', ''tracks_3.csv'')]"
    by code_simp
  note inst = align_files_intersection[of "[''roi_1.png'', ''roi_2.png'', ''roi_3.png'']"
      "[''gt_2.tif'', ''gt_3.tif'', ''gt_4.tif'']" "[''tracks_2.csv'', ''tracks_3.csv'']",
      unfolded r g t common missing]
  show ?thesis
    using inst some r g t triplets by (simp only: if_False simp_thms)
qed

section \<open>Verification: pixel coordinates of the tracks\<close>



lemma load_tracks_ok:
  assumes "nm \<noteq> 0"
  shows "load_tracks nm rows
    = Inr (map (\<lambda>r. raw_row.extend r
                    (track_row.fields (round_half_even (X_nm r / nm))
                                      (round_half_even (Y_nm r / nm)))) rows)"
  using assms by (simp add: load_tracks_def)





section \<open>Verification: construction\<close>

lemma load_tracks_not_no_aligned: "load_tracks nm csv \<noteq> Inl No_aligned_files"
  by (simp add: load_tracks_def)

lemma load_data_not_no_aligned: "load_data W resize rd gd td nm ts \<noteq> Inl No_aligned_files"
proof (induction ts)
  case Nil
  show ?case by simp
next
  case (Cons t ts)
  obtain num r g k where t: "t = (num, r, g, k)" by (cases t) auto
  show ?case
    using Cons load_tracks_not_no_aligned
    by (auto simp: t split: sum.splits)
qed

lemma load_data_length:
  "load_data W resize rd gd td nm ts = Inr es \<Longrightarrow> length es = length ts"
proof (induction ts arbitrary: es)
  case Nil
  then show ?case by simp
next
  case (Cons t ts)
  obtain num r g k where t: "t = (num, r, g, k)" by (cases t) auto
  from Cons.prems show ?case
    by (auto simp: t split: sum.splits dest: Cons.IH)
qed

lemma load_data_succeeds:
  assumes "\<forall>p. \<exists>img. imread W p = Inr img" and "\<forall>p. \<exists>csv. read_csv W p = Inr csv" and "nm \<noteq> 0"
  shows "\<exists>es. load_data W resize rd gd td nm ts = Inr es"
proof (induction ts)
  case Nil
  show ?case by simp
next
  case (Cons t ts)
  obtain num r g k where t: "t = (num, r, g, k)" by (cases t) auto
  obtain ri where ri: "imread W (rd, r) = Inr ri" using assms(1) by blast
  obtain gi where gi: "imread W (gd, g) = Inr gi" using assms(1) by blast
  obtain csv where csv: "read_csv W (td, k) = Inr csv" using assms(2) by blast
  from Cons obtain es where es: "load_data W resize rd gd td nm ts = Inr es" by blast
  show ?case
    by (simp add: t ri gi csv es load_tracks_ok[OF assms(3)])
qed


text \<open>
  Claim C7. Once the three directories are listed, construction raises its own error,
  that no aligned files were found, if and only if the list of aligned triplets is
  empty; an object that is built has at least one triplet and one loaded set per
  triplet, so no empty result is ever built; and with at least one triplet construction
  goes on to load the sets, and builds the object when every file can be read.
\<close>

theorem init_raises_iff_no_triplets:
  assumes "listdir W rd = Inr roi_listing" and "listdir W gd = Inr gt_listing" and "listdir W td = Inr track_listing"
  shows "(snd (init W resize rd gd td nm) = Inl No_aligned_files
            \<longleftrightarrow> fst (align_files (list_images roi_listing) (list_images gt_listing) (list_tracks track_listing)) = []) \<and>
         (\<forall>ev. snd (init W resize rd gd td nm) = Inr ev \<longrightarrow>
            file_triplets ev = fst (align_files (list_images roi_listing) (list_images gt_listing) (list_tracks track_listing)) \<and>
            file_triplets ev \<noteq> [] \<and> length (data ev) = length (file_triplets ev) \<and> data ev \<noteq> []) \<and>
         (fst (align_files (list_images roi_listing) (list_images gt_listing) (list_tracks track_listing)) \<noteq> [] \<and>
          (\<forall>p. \<exists>img. imread W p = Inr img) \<and> (\<forall>p. \<exists>csv. read_csv W p = Inr csv) \<and> nm \<noteq> 0 \<longrightarrow>
            (\<exists>ev. snd (init W resize rd gd td nm) = Inr ev))"
proof -
  obtain aligned printed
    where al: "align_files (list_images roi_listing) (list_images gt_listing) (list_tracks track_listing) = (aligned, printed)"
    by (cases "align_files (list_images roi_listing) (list_images gt_listing) (list_tracks track_listing)") auto
  have i: "init W resize rd gd td nm =
      (if aligned = [] then (printed, Inl No_aligned_files)
       else (case load_data W resize rd gd td nm aligned of
               Inl e \<Rightarrow> (printed, Inl e)
             | Inr es \<Rightarrow>
                 (printed @ [Loaded (length es)],
                  Inr \<lparr>roi_dir = rd, gt_dir = gd, track_dir = td, nm_per_pixel = nm,
                       roi_files = list_images roi_listing, gt_files = list_images gt_listing,
                       track_files = list_tracks track_listing,
                       file_triplets = aligned, data = es\<rparr>)))"
    by (simp add: init_def assms al Let_def)
  have raised: "snd (init W resize rd gd td nm) = Inl No_aligned_files \<longleftrightarrow> aligned = []"
    using load_data_not_no_aligned[of W resize rd gd td nm aligned]
    by (auto simp: i split: sum.splits)
  have built: "file_triplets ev = aligned \<and> file_triplets ev \<noteq> [] \<and>
      length (data ev) = length (file_triplets ev) \<and> data ev \<noteq> []"
    if "snd (init W resize rd gd td nm) = Inr ev" for ev
    using that load_data_length[of W resize rd gd td nm aligned]
    by (auto simp: i split: sum.splits if_splits)
  have proceeds: "\<exists>ev. snd (init W resize rd gd td nm) = Inr ev"
    if "aligned \<noteq> [] \<and> (\<forall>p. \<exists>img. imread W p = Inr img) \<and> (\<forall>p. \<exists>csv. read_csv W p = Inr csv) \<and> nm \<noteq> 0"
  proof -
    from that obtain es where "load_data W resize rd gd td nm aligned = Inr es"
      using load_data_succeeds[of W nm resize rd gd td aligned] by blast
    with that show ?thesis by (simp add: i)
  qed
  show ?thesis
    unfolding al fst_conv using raised built proceeds by blast
qed


theorem init_raises_iff_no_triplets_witness:
  "snd (init
     \<lparr>listdir = (\<lambda>d. if d = ''roi'' then Inr [''cell_5.png'']
                       else if d = ''gt'' then Inr [''gt_6.tif'']
                       else Inr [''tracks_5.csv'', ''notes.txt'']),
      imread = (\<lambda>p. Inr (Gray [[1::int]])),
      read_csv = (\<lambda>p. Inr [])\<rparr>
     (\<lambda>m shape order preserve_range anti_aliasing. replicate (fst shape) (replicate (snd shape) 0))
     ''roi'' ''gt'' ''tracks'' default_nm_per_pixel)
   = (Inl No_aligned_files :: unit error + evaluator) \<and>
   (\<exists>ev. snd (init
     \<lparr>listdir = (\<lambda>d. if d = ''roi'' then Inr [''cell_5.png'']
                       else if d = ''gt'' then Inr [''gt_5.tif'']
                       else Inr [''tracks_5.csv'', ''notes.txt'']),
      imread = (\<lambda>p. Inr (Gray [[1::int]])),
      read_csv = (\<lambda>p. Inr [])\<rparr>
     (\<lambda>m shape order preserve_range anti_aliasing. replicate (fst shape) (replicate (snd shape) 0))
     ''roi'' ''gt'' ''tracks'' default_nm_per_pixel)
   = (Inr ev :: unit error + evaluator) \<and>
     file_triplets ev = [(5, ''cell_5.png'', ''gt_5.tif'', ''tracks_5.csv'')] \<and>
     length (data ev) = 1)"
proof -
  let ?W0 = "\<lparr>listdir = (\<lambda>d. if d = ''roi'' then Inr [''cell_5.png'']
                       else if d = ''gt'' then Inr [''gt_6.tif'']
                       else Inr [''tracks_5.csv'', ''notes.txt'']),
      imread = (\<lambda>p. Inr (Gray [[1::int]])),
      read_csv = (\<lambda>p. Inr [])\<rparr> :: (unit, int) world"
  let ?W1 = "\<lparr>listdir = (\<lambda>d. if d = ''roi'' then Inr [''cell_5.png'']
                       else if d = ''gt'' then Inr [''gt_5.tif'']
                       else Inr [''tracks_5.csv'', ''notes.txt'']),
      imread = (\<lambda>p. Inr (Gray [[1::int]])),
      read_csv = (\<lambda>p. Inr [])\<rparr> :: (unit, int) world"
  let ?rz = "\<lambda>(m::mask) (shape::nat \<times> nat) (order::nat) (preserve_range::bool) (anti_aliasing::bool).
      replicate (fst shape) (replicate (snd shape) (0::rat))"
  have a0: "fst (align_files (list_images [''cell_5.png'']) (list_images [''gt_6.tif''])
      (list_tracks [''tracks_5.csv'', ''notes.txt''])) = []"
    by code_simp
  have a1: "fst (align_files (list_images [''cell_5.png'']) (list_images [''gt_5.tif''])
      (list_tracks [''tracks_5.csv'', ''notes.txt'']))
      = [(5, ''cell_5.png'', ''gt_5.tif'', ''tracks_5.csv'')]"
    by code_simp
  have nz: "default_nm_per_pixel \<noteq> 0" by (simp add: default_nm_per_pixel_def)
  have none: "snd (init ?W0 ?rz ''roi'' ''gt'' ''tracks'' default_nm_per_pixel) = Inl No_aligned_files"
    using init_raises_iff_no_triplets[of ?W0 "''roi''" "[''cell_5.png'']" "''gt''" "[''gt_6.tif'']"
        "''tracks''" "[''tracks_5.csv'', ''notes.txt'']" ?rz default_nm_per_pixel] a0
    by simp
  have some: "\<exists>ev. snd (init ?W1 ?rz ''roi'' ''gt'' ''tracks'' default_nm_per_pixel) = Inr ev \<and>
     file_triplets ev = [(5, ''cell_5.png'', ''gt_5.tif'', ''tracks_5.csv'')] \<and>
     length (data ev) = 1"
    using init_raises_iff_no_triplets[of ?W1 "''roi''" "[''cell_5.png'']" "''gt''" "[''gt_5.tif'']"
        "''tracks''" "[''tracks_5.csv'', ''notes.txt'']" ?rz default_nm_per_pixel] a1 nz
    by auto
  show ?thesis using none some by (rule conjI)
qed

section \<open>Verification: tracks against masks\<close>














section \<open>Verification: the summary row\<close>





lemma summary_keys:
  "fst ` set (summary_of df label)
     = insert ''File Number'' {name. \<exists>cells. (name, Number, cells) \<in> set df}"
  unfolding summary_of_def dom_update by force



lemma summary_object:
  assumes "distinct (columns df)" and "(name, Object, cells) \<in> set df" and "name \<noteq> ''File Number''"
  shows "map_of (summary_of df label) name = None"
proof -
  have "name \<notin> fst ` set (summary_of df label)"
  proof
    assume "name \<in> fst ` set (summary_of df label)"
    then obtain cells' where "(name, Number, cells') \<in> set df"
      using assms(3) unfolding summary_keys by auto
    with assms(1,2) have "(Number, cells') = (Object, cells)"
      unfolding columns_def by (meson eq_key_imp_eq_value)
    then show False by simp
  qed
  then show ?thesis by (simp add: map_of_eq_None_iff)
qed

















lemma mean_no_rows: "mean [] = NaN"
  by (simp add: mean_def numbers_def)




end
